theory Spec2Isabelle
  imports Main "HOL-Library.AList"
begin

section \<open>JavaScript values and the virtual node\<close>

text \<open>
  Attribute values are JavaScript primitives. Numbers are the integer-valued ones
  (\<open>NaN\<close> and fractions do not occur as attribute values here); \<open>truthy\<close> is
  JavaScript's \<open>ToBoolean\<close> on them, and \<open>!v\<close> is \<open>\<not> truthy v\<close>.
\<close>

datatype jsval = JUndefined | JNull | JBool bool | JNum int | JStr string

fun truthy :: "jsval \<Rightarrow> bool" where
  "truthy JUndefined = False"
| "truthy JNull = False"
| "truthy (JBool b) = b"
| "truthy (JNum n) = (n \<noteq> 0)"
| "truthy (JStr s) = (s \<noteq> [])"

text \<open>
  The metadata object \<open>{shouldRender, eventListeners}\<close>: \<open>eventListeners\<close> maps an
  event type to the array of its handlers (a handler is the method reference given to
  \<open>self.callMethod\<close>), in the order \<open>for..in\<close> enumerates the types.
\<close>

record metadata =
  shouldRender :: bool
  eventListeners :: "(string \<times> string list) list"

text \<open>
  The object \<open>createElement\<close> returns: \<open>{type, val, props, children, meta}\<close>.
  \<open>props\<close> is a plain object, written as the list of its own properties in insertion
  order. \<open>meta\<close> is \<open>None\<close> for a hand-built node without the field (\<open>diff\<close> tests
  \<open>vnode.meta\<close> before it reads it).
\<close>

datatype vnode =
  VNode (type: string) (val: string) (props: "(string \<times> jsval) list")
        (children: "vnode list") (meta: "metadata option")

definition defaultMetadata :: metadata where
  "defaultMetadata = \<lparr>shouldRender = True, eventListeners = []\<rparr>"

text \<open>\<open>meta || defaultMetadata()\<close>: an absent \<open>meta\<close> is replaced by the default.\<close>

definition createElement ::
  "string \<Rightarrow> string \<Rightarrow> (string \<times> jsval) list \<Rightarrow> vnode list \<Rightarrow> metadata option \<Rightarrow> vnode" where
  "createElement ty v ps cs m =
     VNode ty v ps cs (Some (case m of None \<Rightarrow> defaultMetadata | Some md \<Rightarrow> md))"

section \<open>The builder \<open>h\<close>\<close>

text \<open>
  One trailing argument of \<open>h\<close>, as the loop classifies it: an array (of nodes), a
  string, \<open>null\<close>, or anything else, which is pushed as it is and is a node.
\<close>

datatype harg = ArrayArg "vnode list" | StringArg string | NullArg | NodeArg vnode

text \<open>
  \<open>children.join("")\<close>: \<open>Array.prototype.join\<close> converts every element with
  \<open>ToString\<close>. Every element of \<open>children\<close> is an object made by \<open>createElement\<close>
  (or passed in as a node), a plain object without a \<open>toString\<close> of its own, so
  \<open>Object.prototype.toString\<close> answers and gives \<open>[object Object]\<close>.
\<close>

definition toString_object :: "vnode \<Rightarrow> string" where
  "toString_object n = ''[object Object]''"

definition join :: "vnode list \<Rightarrow> string" where
  "join cs = concat (map toString_object cs)"

text \<open>
  The body of the \<open>for\<close> loop of \<open>h\<close> on one argument: \<open>children.concat(arg)\<close> for an
  array, a pushed text node carrying \<open>args[i] || ''\<close> for a string or \<open>null\<close>, and
  \<open>children.push(arg)\<close> otherwise.
\<close>

fun h_step :: "metadata option \<Rightarrow> vnode list \<Rightarrow> harg \<Rightarrow> vnode list" where
  "h_step m cs (ArrayArg xs) = cs @ xs"
| "h_step m cs (StringArg s) = cs @ [createElement ''#text'' s [] [] m]"
| "h_step m cs NullArg = cs @ [createElement ''#text'' [] [] [] m]"
| "h_step m cs (NodeArg n) = cs @ [n]"

fun h_loop :: "metadata option \<Rightarrow> harg list \<Rightarrow> vnode list \<Rightarrow> vnode list" where
  "h_loop m [] cs = cs"
| "h_loop m (a # as) cs = h_loop m as (h_step m cs a)"

text \<open>
  \<open>h(tag, attrs, meta, ...args)\<close>; \<open>attrs\<close> is \<open>None\<close> when the argument is falsy
  (\<open>args.shift() || {}\<close>), \<open>meta\<close> is \<open>None\<close> when it is \<open>undefined\<close>.
\<close>

definition h ::
  "string \<Rightarrow> (string \<times> jsval) list option \<Rightarrow> metadata option \<Rightarrow> harg list \<Rightarrow> vnode" where
  "h tag attrs m args =
     (let attrs' = (case attrs of None \<Rightarrow> [] | Some a \<Rightarrow> a);
          cs = h_loop m args []
      in createElement tag (join cs) attrs' cs m)"

section \<open>Objects and \<open>merge\<close>\<close>

text \<open>
  \<open>merge\<close> builds its result with \<open>Object.create(obj)\<close>, an object whose prototype is
  the first argument, so what it returns shares \<open>obj\<close> by reference. Objects therefore
  live in a store: a reference is an index, an object is its own enumerable properties
  in insertion order and its prototype, and allocation appends. A prototype is always
  an older object (\<open>Object.create\<close> needs it to exist), which is what the walks along the
  chain rely on; the non-enumerable members of \<open>Object.prototype\<close> are not part of the
  model, so \<open>None\<close> is the prototype of an object literal.
\<close>

record jsobj =
  own :: "(string \<times> jsval) list"
  proto :: "nat option"

type_synonym store = "jsobj list"

definition literal :: "(string \<times> jsval) list \<Rightarrow> jsobj" where
  "literal kvs = \<lparr>own = kvs, proto = None\<rparr>"

text \<open>\<open>o[k]\<close>: the own property, else the prototype's; \<open>undefined\<close> when no object has it.\<close>

function get_prop :: "store \<Rightarrow> nat \<Rightarrow> string \<Rightarrow> jsval" where
  "get_prop s r k =
     (if r < length s then
        (case map_of (own (s ! r)) k of
           Some v \<Rightarrow> v
         | None \<Rightarrow>
             (case proto (s ! r) of
                None \<Rightarrow> JUndefined
              | Some p \<Rightarrow> if p < r then get_prop s p k else JUndefined))
      else JUndefined)"
  by pat_completeness auto
termination
  by (relation "measure (\<lambda>(s, r, k). r)") auto

declare get_prop.simps [simp del]

text \<open>
  \<open>for (key in o)\<close>: the own enumerable keys first, then the prototype's that no own
  key shadows.
\<close>

function for_in_keys :: "store \<Rightarrow> nat \<Rightarrow> string list" where
  "for_in_keys s r =
     (if r < length s then
        (let ks = remdups (map fst (own (s ! r)))
         in ks @
            (case proto (s ! r) of
               None \<Rightarrow> []
             | Some p \<Rightarrow> if p < r then filter (\<lambda>k. k \<notin> set ks) (for_in_keys s p) else []))
      else [])"
  by pat_completeness auto
termination
  by (relation "measure (\<lambda>(s, r). r)") auto

declare for_in_keys.simps [simp del]

definition hasOwnProperty :: "store \<Rightarrow> nat \<Rightarrow> string \<Rightarrow> bool" where
  "hasOwnProperty s r k = (r < length s \<and> k \<in> set (map fst (own (s ! r))))"

text \<open>\<open>o[k] = v\<close> on an object of data properties: the own property is written.\<close>

definition set_prop :: "store \<Rightarrow> nat \<Rightarrow> string \<Rightarrow> jsval \<Rightarrow> store" where
  "set_prop s r k v = s[r := (s ! r)\<lparr>own := AList.update k v (own (s ! r))\<rparr>]"

definition Object_create :: "store \<Rightarrow> nat \<Rightarrow> store \<times> nat" where
  "Object_create s p = (s @ [\<lparr>own = [], proto = Some p\<rparr>], length s)"

text \<open>The body of the loop of \<open>merge\<close> for one key of \<open>obj2\<close>.\<close>

definition merge_step :: "nat \<Rightarrow> nat \<Rightarrow> string \<Rightarrow> store \<Rightarrow> store" where
  "merge_step obj2 merged key s =
     (if hasOwnProperty s obj2 key then set_prop s merged key (get_prop s obj2 key) else s)"

definition merge :: "store \<Rightarrow> nat \<Rightarrow> nat \<Rightarrow> store \<times> nat" where
  "merge s obj obj2 =
     (case Object_create s obj of
        (s0, merged) \<Rightarrow> (fold (merge_step obj2 merged) (for_in_keys s0 obj2) s0, merged))"

text \<open>An object literal in the store: a valid reference to an object without prototype.\<close>

definition plain :: "store \<Rightarrow> nat \<Rightarrow> bool" where
  "plain s r = (r < length s \<and> proto (s ! r) = None)"

section \<open>The live tree\<close>

text \<open>
  The host document is an HTML document, the tree \<open>diff\<close> reads and writes: a text node
  with its \<open>textContent\<close>, or an element with its \<open>nodeName\<close>, its attribute list
  (name and value, in order) and its \<open>childNodes\<close>. The host is taken to accept every
  tag and attribute name and to keep attribute names as they are written.
\<close>

datatype live =
  TextNode string
| Element string "(string \<times> string) list" "live list"

fun nodeName :: "live \<Rightarrow> string" where
  "nodeName (TextNode t) = ''#text''"
| "nodeName (Element n as cs) = n"

fun childNodes :: "live \<Rightarrow> live list" where
  "childNodes (TextNode t) = []"
| "childNodes (Element n as cs) = cs"

text \<open>\<open>toLowerCase\<close> and \<open>toUpperCase\<close> on the ASCII letters tag names are made of.\<close>

definition lower_char :: "char \<Rightarrow> char" where
  "lower_char c =
     (case map_of (zip ''ABCDEFGHIJKLMNOPQRSTUVWXYZ'' ''abcdefghijklmnopqrstuvwxyz'') c of
        Some d \<Rightarrow> d
      | None \<Rightarrow> c)"

definition upper_char :: "char \<Rightarrow> char" where
  "upper_char c =
     (case map_of (zip ''abcdefghijklmnopqrstuvwxyz'' ''ABCDEFGHIJKLMNOPQRSTUVWXYZ'') c of
        Some d \<Rightarrow> d
      | None \<Rightarrow> c)"

definition toLowerCase :: "string \<Rightarrow> string" where
  "toLowerCase s = map lower_char s"

definition toUpperCase :: "string \<Rightarrow> string" where
  "toUpperCase s = map upper_char s"

text \<open>
  \<open>document.createElement(tag)\<close> in an HTML document: the local name is the tag in
  lower case, and \<open>nodeName\<close> reports it in upper case. The element starts with no
  attribute and no child. \<open>document.createTextNode(data)\<close> is \<open>TextNode data\<close>.
\<close>

definition document_createElement :: "string \<Rightarrow> live" where
  "document_createElement tag = Element (toUpperCase (toLowerCase tag)) [] []"

text \<open>
  What the program can throw on values of these types: a \<open>TypeError\<close>, from reading a
  property of \<open>undefined\<close> or calling a method a text node does not have.
\<close>

datatype error = TypeError

text \<open>\<open>ToString\<close>, which \<open>setAttribute\<close> applies to the value it is given.\<close>

function digits :: "nat \<Rightarrow> string" where
  "digits n =
     (if n < 10 then [''0123456789'' ! n] else digits (n div 10) @ [''0123456789'' ! (n mod 10)])"
  by pat_completeness auto
termination
  by (relation "measure id") auto

declare digits.simps [simp del]

fun ToString :: "jsval \<Rightarrow> string" where
  "ToString JUndefined = ''undefined''"
| "ToString JNull = ''null''"
| "ToString (JBool b) = (if b then ''true'' else ''false'')"
| "ToString (JNum n) = (if n < 0 then ''-'' @ digits (nat (- n)) else digits (nat n))"
| "ToString (JStr s) = s"

fun setAttribute :: "string \<Rightarrow> jsval \<Rightarrow> live \<Rightarrow> error + live" where
  "setAttribute name v (Element n as cs) = Inr (Element n (AList.update name (ToString v) as) cs)"
| "setAttribute name v (TextNode t) = Inl TypeError"

fun removeAttribute :: "string \<Rightarrow> live \<Rightarrow> error + live" where
  "removeAttribute name (Element n as cs) = Inr (Element n (AList.delete name as) cs)"
| "removeAttribute name (TextNode t) = Inl TypeError"

text \<open>
  \<open>node.textContent = s\<close>: a text node takes the string as its data; an element loses
  its children and gets one text child, or none when the string is empty.
\<close>

fun set_textContent :: "string \<Rightarrow> live \<Rightarrow> live" where
  "set_textContent s (TextNode t) = TextNode s"
| "set_textContent s (Element n as cs) = Element n as (if s = [] then [] else [TextNode s])"

fun set_childNodes :: "live list \<Rightarrow> live \<Rightarrow> live" where
  "set_childNodes cs' (Element n as cs) = Element n as cs'"
| "set_childNodes cs' (TextNode t) = TextNode t"

text \<open>
  \<open>extractAttrs\<close>: the fresh object \<open>attrs\<close>, filled from \<open>node.attributes\<close> in order;
  a text node has no \<open>attributes\<close> and gives the empty object.
\<close>

fun extractAttrs :: "live \<Rightarrow> (string \<times> jsval) list" where
  "extractAttrs (TextNode t) = []"
| "extractAttrs (Element n as cs) = fold (\<lambda>(name, v) attrs. AList.update name (JStr v) attrs) as []"

section \<open>The ambient registries and the log of effects\<close>

text \<open>
  Every call that changes something outside the function making it is logged, in the
  order the calls are made: the three calls on \<open>parent\<close> with their arguments, the
  writes to the node, a directive's invocation with its three arguments, and the two
  ways a listener is registered (\<open>self.on(type, method)\<close>, and
  \<open>node.addEventListener(type, f)\<close> with the method \<open>f\<close> hands to \<open>self.callMethod\<close>).
\<close>

datatype op =
  AppendChild live
| RemoveChild live
| ReplaceChild live live
| SetTextContent string
| SetAttribute string jsval
| RemoveAttribute string
| RunDirective string live jsval vnode
| On string string
| AddEventListener live string string

text \<open>
  \<open>directives\<close>, \<open>specialDirectives\<close> and \<open>self\<close> are not defined in this file; they
  are parameters. A directive is a function of \<open>(node, value, vnode)\<close> that may change
  the node it is given, so it is a function to the node afterwards;
  \<open>specialDirectives[name]\<close> and \<open>self.$events[type]\<close> are only tested for truth.
\<close>

record ctx =
  directives :: "string \<Rightarrow> (live \<Rightarrow> jsval \<Rightarrow> vnode \<Rightarrow> live) option"
  specialDirectives :: "string \<Rightarrow> bool"
  events :: "string \<Rightarrow> bool"

text \<open>
  A directive works on the node object it receives: whatever it does, the node stays
  the text node or the element of that name it was.
\<close>

fun run_directive :: "(live \<Rightarrow> jsval \<Rightarrow> vnode \<Rightarrow> live) \<Rightarrow> live \<Rightarrow> jsval \<Rightarrow> vnode \<Rightarrow> live" where
  "run_directive d (Element n as cs) v vn =
     (case d (Element n as cs) v vn of Element n' as' cs' \<Rightarrow> Element n as' cs' | TextNode t \<Rightarrow> Element n as cs)"
| "run_directive d (TextNode t) v vn =
     (case d (TextNode t) v vn of TextNode t' \<Rightarrow> TextNode t' | Element n' as' cs' \<Rightarrow> TextNode t)"

section \<open>\<open>addEventListeners\<close> and \<open>createNodeFromVNode\<close>\<close>

text \<open>
  \<open>addEventListeners(node, eventListeners)\<close>. \<open>for (type in undefined)\<close> runs no
  iteration, which is the case \<open>None\<close>. \<open>method\<close> is a \<open>var\<close>, one variable for the whole
  call, and the function given to \<open>addEventListener\<close> reads it when the event fires:
  by then it holds the handler the loops assigned last.
\<close>

definition addEventListeners ::
  "ctx \<Rightarrow> live \<Rightarrow> (string \<times> string list) list option \<Rightarrow> op list" where
  "addEventListeners c node els =
     (case els of
        None \<Rightarrow> []
      | Some l \<Rightarrow>
          (let pairs = concat (map (\<lambda>(ty, ms). map (Pair ty) ms) l)
           in map (\<lambda>(ty, method).
                     if events c ty then On ty method
                     else AddEventListener node ty (snd (last pairs))) pairs))"

text \<open>A \<open>map\<close> over an array that stops at the first call that throws.\<close>

fun map_result :: "('a \<Rightarrow> error + 'b) \<Rightarrow> 'a list \<Rightarrow> error + 'b list" where
  "map_result f [] = Inr []"
| "map_result f (x # xs) =
     (case f x of
        Inl e \<Rightarrow> Inl e
      | Inr y \<Rightarrow> (case map_result f xs of Inl e \<Rightarrow> Inl e | Inr ys \<Rightarrow> Inr (y # ys)))"

lemma map_result_cong [fundef_cong]:
  "xs = ys \<Longrightarrow> (\<And>x. x \<in> set ys \<Longrightarrow> f x = g x) \<Longrightarrow> map_result f xs = map_result g ys"
  by (induction ys arbitrary: xs) (auto split: sum.splits)

text \<open>
  \<open>createNodeFromVNode\<close> returns the node and the log of the registrations made on the
  way. The second argument of \<open>Array.prototype.map\<close> is the \<open>this\<close> of the callback, which
  \<open>createNodeFromVNode\<close> does not read; evaluating it is what reads
  \<open>vnode.meta.eventListeners\<close>, and throws when \<open>meta\<close> is absent. \<open>addEventListeners(el)\<close>
  is called with one argument, so its \<open>eventListeners\<close> is \<open>undefined\<close>.
\<close>

fun createNodeFromVNode :: "ctx \<Rightarrow> vnode \<Rightarrow> error + (live \<times> op list)" where
  "createNodeFromVNode c (VNode ty v ps cs m) =
     (if ty = ''#text'' then Inr (TextNode v, [])
      else
        (case m of
           None \<Rightarrow> Inl TypeError
         | Some md \<Rightarrow>
             (case map_result (createNodeFromVNode c) cs of
                Inl e \<Rightarrow> Inl e
              | Inr rs \<Rightarrow>
                  (let el = set_childNodes (map fst rs) (document_createElement ty)
                   in Inr (el, concat (map snd rs) @ addEventListeners c el None)))))"

section \<open>\<open>diffProps\<close>\<close>

text \<open>
  The body of the loop of \<open>diffProps\<close> for one \<open>propName\<close>; \<open>s\<close> is the store after
  \<open>merge\<close>, in which \<open>nodeProps\<close>, \<open>vnodeProps\<close> and \<open>allProps\<close> are references. It returns
  the node afterwards and what the iteration logged.
\<close>

definition diffProps_step ::
  "ctx \<Rightarrow> store \<Rightarrow> nat \<Rightarrow> nat \<Rightarrow> nat \<Rightarrow> vnode \<Rightarrow> string \<Rightarrow> live \<Rightarrow> error + (live \<times> op list)" where
  "diffProps_step c s nodeProps vnodeProps allProps vnode propName node =
     (if \<not> truthy (get_prop s vnodeProps propName) \<or> directives c propName \<noteq> None
         \<or> specialDirectives c propName
      then
        (case (case directives c propName of
                 None \<Rightarrow> (node, [])
               | Some d \<Rightarrow>
                   (run_directive d node (get_prop s allProps propName) vnode,
                    [RunDirective propName node (get_prop s allProps propName) vnode]))
         of (node1, ops1) \<Rightarrow>
           (case removeAttribute propName node1 of
              Inl e \<Rightarrow> Inl e
            | Inr node2 \<Rightarrow> Inr (node2, ops1 @ [RemoveAttribute propName])))
      else if \<not> truthy (get_prop s nodeProps propName)
              \<or> get_prop s nodeProps propName \<noteq> get_prop s vnodeProps propName
      then
        (case setAttribute propName (get_prop s vnodeProps propName) node of
           Inl e \<Rightarrow> Inl e
         | Inr node1 \<Rightarrow> Inr (node1, [SetAttribute propName (get_prop s vnodeProps propName)]))
      else Inr (node, []))"

fun diffProps_loop ::
  "ctx \<Rightarrow> store \<Rightarrow> nat \<Rightarrow> nat \<Rightarrow> nat \<Rightarrow> vnode \<Rightarrow> string list \<Rightarrow> live \<Rightarrow> error + (live \<times> op list)" where
  "diffProps_loop c s nodeProps vnodeProps allProps vnode [] node = Inr (node, [])"
| "diffProps_loop c s nodeProps vnodeProps allProps vnode (propName # rest) node =
     (case diffProps_step c s nodeProps vnodeProps allProps vnode propName node of
        Inl e \<Rightarrow> Inl e
      | Inr (node1, ops1) \<Rightarrow>
          (case diffProps_loop c s nodeProps vnodeProps allProps vnode rest node1 of
             Inl e \<Rightarrow> Inl e
           | Inr (node2, ops2) \<Rightarrow> Inr (node2, ops1 @ ops2)))"

text \<open>
  \<open>diffProps(node, nodeProps, vnodeProps, vnode)\<close>, with the store the two objects
  live in.
\<close>

definition diffProps ::
  "ctx \<Rightarrow> store \<Rightarrow> live \<Rightarrow> nat \<Rightarrow> nat \<Rightarrow> vnode \<Rightarrow> error + (live \<times> op list)" where
  "diffProps c s node nodeProps vnodeProps vnode =
     (case merge s nodeProps vnodeProps of
        (s1, allProps) \<Rightarrow>
          diffProps_loop c s1 nodeProps vnodeProps allProps vnode (for_in_keys s1 allProps) node)"

section \<open>\<open>diff\<close>\<close>

text \<open>
  What one call of \<open>diff\<close> does to the child list of \<open>parent\<close> at the position of
  \<open>node\<close>: nothing, \<open>appendChild\<close> of a new node, \<open>removeChild\<close>, \<open>replaceChild\<close> by a new
  node, or the node is kept and is now the given one (its text, attributes and
  children may have changed in place).
\<close>

datatype patch = Untouched | Appended live | Removed | Replaced live | Kept live

fun apply_patch :: "patch \<Rightarrow> nat \<Rightarrow> live list \<Rightarrow> live list" where
  "apply_patch Untouched i cs = cs"
| "apply_patch (Appended n) i cs = cs @ [n]"
| "apply_patch Removed i cs = take i cs @ drop (Suc i) cs"
| "apply_patch (Replaced n) i cs = cs[i := n]"
| "apply_patch (Kept n) i cs = cs[i := n]"

text \<open>\<open>xs[i]\<close> of an array or a node list: \<open>undefined\<close> out of range.\<close>

definition nth_opt :: "'a list \<Rightarrow> nat \<Rightarrow> 'a option" where
  "nth_opt xs i = (if i < length xs then Some (xs ! i) else None)"

text \<open>
  \<open>diff(node, undefined, parent)\<close>: the gate is open (\<open>vnode\<close> is falsy); without a node
  \<open>createNodeFromVNode(undefined)\<close> throws on \<open>vnode.type\<close>, with one the node is removed.
\<close>

definition diff_absent :: "live option \<Rightarrow> error + (patch \<times> op list)" where
  "diff_absent node =
     (case node of
        None \<Rightarrow> Inl TypeError
      | Some n \<Rightarrow> Inr (Removed, [RemoveChild n]))"

text \<open>
  The iterations of the child loop from an index \<open>i\<close> at or beyond
  \<open>vnode.children.length\<close>, where \<open>vnode.children[i]\<close> is \<open>undefined\<close>: the loop goes on
  while \<open>i < node.childNodes.length\<close>, and the node list is read again at every turn.
\<close>

function diff_rest :: "nat \<Rightarrow> live list \<Rightarrow> error + (live list \<times> op list)" where
  "diff_rest i cs =
     (if i < length cs then
        (case diff_absent (nth_opt cs i) of
           Inl e \<Rightarrow> Inl e
         | Inr (p, ops) \<Rightarrow>
             (case diff_rest (Suc i) (apply_patch p i cs) of
                Inl e \<Rightarrow> Inl e
              | Inr (cs', ops') \<Rightarrow> Inr (cs', ops @ ops')))
      else Inr (cs, []))"
  by pat_completeness auto
termination
  by (relation "measure (\<lambda>(i, cs). length cs - i)")
     (auto simp: diff_absent_def nth_opt_def split: option.splits)

declare diff_rest.simps [simp del]

text \<open>
  \<open>diff(node, vnode, parent)\<close> returns what it does to \<open>parent\<close> and the log of the whole
  call. \<open>diff_children i cs vs\<close> is the child loop at index \<open>i\<close>, where \<open>cs\<close> is
  \<open>node.childNodes\<close> now and \<open>vs\<close> are the children of \<open>vnode\<close> from index \<open>i\<close> on; the
  store of the call to \<open>diffProps\<close> holds the object \<open>extractAttrs\<close> has just made and
  \<open>vnode.props\<close>.
\<close>

fun diff :: "ctx \<Rightarrow> live option \<Rightarrow> vnode option \<Rightarrow> error + (patch \<times> op list)"
  and diff_children :: "ctx \<Rightarrow> nat \<Rightarrow> live list \<Rightarrow> vnode list \<Rightarrow> error + (live list \<times> op list)" where
  "diff c node None = diff_absent node"
| "diff c node (Some (VNode ty v ps vs m)) =
     (if (case m of None \<Rightarrow> True | Some md \<Rightarrow> shouldRender md) then
        (case node of
           None \<Rightarrow>
             (case createNodeFromVNode c (VNode ty v ps vs m) of
                Inl e \<Rightarrow> Inl e
              | Inr (new, ops) \<Rightarrow> Inr (Appended new, ops @ [AppendChild new]))
         | Some n \<Rightarrow>
             if toLowerCase (nodeName n) \<noteq> ty then
               (case createNodeFromVNode c (VNode ty v ps vs m) of
                  Inl e \<Rightarrow> Inl e
                | Inr (new, ops) \<Rightarrow> Inr (Replaced new, ops @ [ReplaceChild new n]))
             else if toLowerCase (nodeName n) = ''#text'' \<and> ty = ''#text'' then
               Inr (Kept (set_textContent v n), [SetTextContent v])
             else if ty \<noteq> [] then
               (case diffProps c [literal (extractAttrs n), literal ps] n 0 1 (VNode ty v ps vs m) of
                  Inl e \<Rightarrow> Inl e
                | Inr (n1, ops1) \<Rightarrow>
                    (case diff_children c 0 (childNodes n1) vs of
                       Inl e \<Rightarrow> Inl e
                     | Inr (cs', ops2) \<Rightarrow> Inr (Kept (set_childNodes cs' n1), ops1 @ ops2)))
             else Inr (Untouched, []))
      else Inr (Untouched, []))"
| "diff_children c i cs [] = diff_rest i cs"
| "diff_children c i cs (v # vs) =
     (case diff c (nth_opt cs i) (Some v) of
        Inl e \<Rightarrow> Inl e
      | Inr (p, ops) \<Rightarrow>
          (case diff_children c (Suc i) (apply_patch p i cs) vs of
             Inl e \<Rightarrow> Inl e
           | Inr (cs', ops') \<Rightarrow> Inr (cs', ops @ ops')))"

section \<open>Registries used in the examples\<close>

text \<open>
  \<open>no_directives\<close>: nothing is registered. \<open>show_directive\<close>: one directive, \<open>m-show\<close>,
  which leaves the node as it is. \<open>grow_directive\<close>: one directive, \<open>m-grow\<close>, which
  appends a text node to the element it is given.
\<close>

definition no_directives :: ctx where
  "no_directives =
     \<lparr>directives = (\<lambda>k. None), specialDirectives = (\<lambda>k. False), events = (\<lambda>k. False)\<rparr>"


definition grow_directive :: ctx where
  "grow_directive =
     \<lparr>directives =
        (\<lambda>k. if k = ''m-grow''
             then Some (\<lambda>n v vn. case n of
                                   Element nm as cs \<Rightarrow> Element nm as (cs @ [TextNode ''x''])
                                 | TextNode t \<Rightarrow> TextNode t)
             else None),
      specialDirectives = (\<lambda>k. False), events = (\<lambda>k. False)\<rparr>"

section \<open>Predicates of the statements\<close>

text \<open>The attribute an entry of the log is about.\<close>

fun op_prop :: "op \<Rightarrow> string option" where
  "op_prop (SetAttribute k v) = Some k"
| "op_prop (RemoveAttribute k) = Some k"
| "op_prop (RunDirective k n v vn) = Some k"
| "op_prop x = None"

text \<open>The calls that add, remove or replace a live node.\<close>

fun structural :: "op \<Rightarrow> bool" where
  "structural (AppendChild n) = True"
| "structural (RemoveChild n) = True"
| "structural (ReplaceChild n n') = True"
| "structural x = False"

text \<open>
  Every element of the tree has a \<open>meta\<close>, a tag that \<open>toLowerCase\<close> leaves as it is, and
  no attribute whose name is a registered directive.
\<close>

fun settled :: "ctx \<Rightarrow> vnode \<Rightarrow> bool" where
  "settled c (VNode ty v ps cs m) =
     (ty = ''#text'' \<or>
      (m \<noteq> None \<and> ty = toLowerCase ty \<and> list_all (\<lambda>k. directives c k = None) (map fst ps) \<and>
       list_all (settled c) cs))"

text \<open>Whether the result of \<open>diff\<close> is a \<open>replaceChild\<close> on the parent.\<close>

fun replaces :: "error + (patch \<times> op list) \<Rightarrow> bool" where
  "replaces (Inr (Replaced n, ops)) = True"
| "replaces r = False"

definition gate_open :: "vnode \<Rightarrow> bool" where
  "gate_open v = (case meta v of None \<Rightarrow> True | Some md \<Rightarrow> shouldRender md)"

text \<open>A patch that leaves the node in its place.\<close>

fun stays :: "patch \<Rightarrow> bool" where
  "stays Untouched = True"
| "stays (Kept n) = True"
| "stays p = False"

text \<open>The node \<open>createNodeFromVNode\<close> builds when nothing throws.\<close>

fun live_of :: "vnode \<Rightarrow> live" where
  "live_of (VNode ty v ps cs m) =
     (if ty = ''#text'' then TextNode v
      else Element (toUpperCase (toLowerCase ty)) [] (map live_of cs))"

text \<open>Every element of the tree has a \<open>meta\<close>: nothing throws in \<open>createNodeFromVNode\<close>.\<close>

fun materializable :: "vnode \<Rightarrow> bool" where
  "materializable (VNode ty v ps cs m) =
     (ty = ''#text'' \<or> (m \<noteq> None \<and> list_all materializable cs))"

text \<open>No element of a live tree has an attribute.\<close>

fun bare :: "live \<Rightarrow> bool" where
  "bare (TextNode t) = True"
| "bare (Element n as cs) = (as = [] \<and> list_all bare cs)"

section \<open>Properties of the builder\<close>

text \<open>
  An array argument of any length is spliced in like its elements passed one by one,
  and \<open>val\<close> is one \<open>[object Object]\<close> for each child.
\<close>

lemma h_loop_nodes: "h_loop m (map NodeArg xs) cs = cs @ xs"
  by (induction xs arbitrary: cs) simp_all

lemma h_array_any:
  "children (h tag attrs m [ArrayArg xs]) = children (h tag attrs m (map NodeArg xs))"
  by (simp add: h_def createElement_def Let_def h_loop_nodes)

lemma h_val_any:
  "val (h tag attrs m args) =
     concat (map (\<lambda>n. ''[object Object]'') (children (h tag attrs m args)))"
  by (simp add: h_def createElement_def Let_def join_def toString_object_def [abs_def])


text \<open>
  C3: the \<open>val\<close> of the node \<open>h\<close> returns is \<open>children.join("")\<close>, and the children are
  objects: for \<open>h("div", {}, meta, "a", "b")\<close> the two children are the text nodes
  \<open>"a"\<close> and \<open>"b"\<close>, and \<open>val\<close> is \<open>[object Object][object Object]\<close>, not \<open>"ab"\<close>.
\<close>

theorem h_val_joins_objects:
  "val (h ''div'' (Some []) m [StringArg ''a'', StringArg ''b'']) = ''[object Object][object Object]'' \<and>
   map type (children (h ''div'' (Some []) m [StringArg ''a'', StringArg ''b''])) = [''#text'', ''#text''] \<and>
   map val (children (h ''div'' (Some []) m [StringArg ''a'', StringArg ''b''])) = [''a'', ''b'']"
  by (simp add: h_def createElement_def join_def toString_object_def)

section \<open>Properties of \<open>merge\<close>\<close>

lemma get_prop_plain:
  "plain s r \<Longrightarrow> get_prop s r k = (case map_of (own (s ! r)) k of Some v \<Rightarrow> v | None \<Rightarrow> JUndefined)"
  by (subst get_prop.simps) (simp add: plain_def split: option.splits)

lemma for_in_keys_plain:
  "plain s r \<Longrightarrow> for_in_keys s r = remdups (map fst (own (s ! r)))"
  by (subst for_in_keys.simps) (simp add: plain_def)

lemma merge_step_length [simp]: "length (merge_step b m k t) = length t"
  by (simp add: merge_step_def set_prop_def)

lemma merge_step_frame: "r \<noteq> m \<Longrightarrow> merge_step b m k t ! r = t ! r"
  by (simp add: merge_step_def set_prop_def)

lemma merge_step_proto: "proto (merge_step b m k t ! r) = proto (t ! r)"
  by (cases "r = m"; cases "m < length t") (simp_all add: merge_step_def set_prop_def list_update_beyond)

lemma fold_merge_step_length [simp]: "length (fold (merge_step b m) ks t) = length t"
  by (induction ks arbitrary: t) simp_all

lemma fold_merge_step_frame: "r \<noteq> m \<Longrightarrow> fold (merge_step b m) ks t ! r = t ! r"
  by (induction ks arbitrary: t) (simp_all add: merge_step_frame)

lemma fold_merge_step_proto: "proto (fold (merge_step b m) ks t ! r) = proto (t ! r)"
  by (induction ks arbitrary: t) (simp_all add: merge_step_proto)

lemma merge_step_own:
  assumes "plain t b" "b \<noteq> m" "m < length t"
  shows "map_of (own (merge_step b m k t ! m)) =
         (case map_of (own (t ! b)) k of None \<Rightarrow> map_of (own (t ! m))
          | Some v \<Rightarrow> (map_of (own (t ! m)))(k \<mapsto> v))"
proof (cases "map_of (own (t ! b)) k")
  case None
  then have "k \<notin> set (map fst (own (t ! b)))" by (simp add: map_of_eq_None_iff)
  then show ?thesis using None by (simp add: merge_step_def hasOwnProperty_def)
next
  case (Some v)
  then have "k \<in> set (map fst (own (t ! b)))"
    by (metis map_of_eq_None_iff option.distinct(1) set_map)
  then show ?thesis using Some assms
    by (simp add: merge_step_def hasOwnProperty_def set_prop_def get_prop_plain update_conv' plain_def)
qed

lemma fold_merge_step_own:
  assumes "plain t b" "b \<noteq> m" "m < length t"
  shows "map_of (own (fold (merge_step b m) ks t ! m)) k =
         (if k \<in> set ks \<and> map_of (own (t ! b)) k \<noteq> None then map_of (own (t ! b)) k
          else map_of (own (t ! m)) k)"
  using assms
proof (induction ks arbitrary: t)
  case Nil
  then show ?case by simp
next
  case (Cons x ks)
  let ?t = "merge_step b m x t"
  have p: "plain ?t b" using Cons.prems
    by (simp add: plain_def merge_step_frame merge_step_proto)
  have b: "?t ! b = t ! b" using Cons.prems by (simp add: merge_step_frame)
  have "map_of (own (fold (merge_step b m) ks ?t ! m)) k =
        (if k \<in> set ks \<and> map_of (own (?t ! b)) k \<noteq> None then map_of (own (?t ! b)) k
          else map_of (own (?t ! m)) k)"
    using Cons.IH [OF p] Cons.prems by simp
  then show ?case using Cons.prems
    by (auto simp: b merge_step_own split: option.splits)
qed

lemma keys_dom: "set (map fst kvs) = dom (map_of kvs)"
  by (simp add: dom_map_of_conv_image_fst)

lemma merge_result:
  assumes a: "plain s a" and b: "plain s b"
  defines "t \<equiv> fst (merge s a b)"
  shows "merge s a b = (t, length s)"
    and "length t = Suc (length s)"
    and "take (length s) t = s"
    and "proto (t ! length s) = Some a"
    and "map_of (own (t ! length s)) = map_of (own (s ! b))"
proof -
  let ?m = "length s"
  let ?s0 = "s @ [\<lparr>own = [], proto = Some a\<rparr>]"
  let ?ks = "remdups (map fst (own (s ! b)))"
  have pb: "plain ?s0 b" using b by (simp add: plain_def nth_append)
  have ks: "for_in_keys ?s0 b = ?ks"
    using for_in_keys_plain [OF pb] b by (simp add: plain_def nth_append)
  have t: "t = fold (merge_step b ?m) ?ks ?s0"
    by (simp add: t_def merge_def Object_create_def ks)
  show "merge s a b = (t, length s)"
    by (simp add: t_def merge_def Object_create_def)
  show len: "length t = Suc (length s)" by (simp add: t)
  show "take (length s) t = s"
  proof (rule nth_equalityI)
    show "length (take (length s) t) = length s" using len by simp
  next
    fix i assume "i < length (take (length s) t)"
    then have i: "i < length s" by simp
    then have "t ! i = ?s0 ! i" by (simp add: t fold_merge_step_frame)
    then show "take (length s) t ! i = s ! i" using i by (simp add: nth_append)
  qed
  show "proto (t ! length s) = Some a" by (simp add: t fold_merge_step_proto)
  have bm: "b \<noteq> ?m" using b by (simp add: plain_def)
  have "map_of (own (t ! ?m)) k = map_of (own (s ! b)) k" for k
  proof -
    have "map_of (own (t ! ?m)) k =
          (if k \<in> set ?ks \<and> map_of (own (?s0 ! b)) k \<noteq> None then map_of (own (?s0 ! b)) k
           else map_of (own (?s0 ! ?m)) k)"
      unfolding t using fold_merge_step_own [OF pb bm, of ?ks k] by simp
    moreover have "?s0 ! b = s ! b" using b by (simp add: plain_def nth_append)
    moreover have "k \<notin> set ?ks \<Longrightarrow> map_of (own (s ! b)) k = None"
      by (simp add: map_of_eq_None_iff)
    ultimately show ?thesis by auto
  qed
  then show "map_of (own (t ! length s)) = map_of (own (s ! b))" by (rule ext)
qed

lemma merge_reads:
  assumes a: "plain s a" and b: "plain s b"
  defines "t \<equiv> fst (merge s a b)"
  shows "distinct (for_in_keys t (length s))"
    and "set (for_in_keys t (length s)) = set (for_in_keys s a) \<union> set (for_in_keys s b)"
    and "get_prop t (length s) k =
           (case map_of (own (s ! b)) k of Some v \<Rightarrow> v | None \<Rightarrow> get_prop s a k)"
    and "get_prop t a k = get_prop s a k"
    and "get_prop t b k = get_prop s b k"
proof -
  note r = merge_result [OF a b, folded t_def]
  let ?m = "length s"
  have al: "a < ?m" and bl: "b < ?m" using a b by (simp_all add: plain_def)
  have ta: "t ! a = s ! a" using r(3) al by (metis nth_take)
  have tb: "t ! b = s ! b" using r(3) bl by (metis nth_take)
  have pa: "plain t a" using a r(2) ta by (simp add: plain_def)
  have pb: "plain t b" using b r(2) tb by (simp add: plain_def)
  have keys_m: "set (map fst (own (t ! ?m))) = set (map fst (own (s ! b)))"
    unfolding keys_dom r(5) ..
  have fk: "for_in_keys t ?m = remdups (map fst (own (t ! ?m))) @
              filter (\<lambda>k. k \<notin> set (map fst (own (t ! ?m)))) (for_in_keys t a)"
    by (subst for_in_keys.simps) (simp add: r(2) r(4) al Let_def)
  have fa: "for_in_keys t a = for_in_keys s a"
    by (simp add: for_in_keys_plain [OF pa] for_in_keys_plain [OF a] ta)
  have fb: "set (for_in_keys s b) = set (map fst (own (s ! b)))"
    by (simp add: for_in_keys_plain [OF b])
  show "distinct (for_in_keys t ?m)"
    by (auto simp: fk fa for_in_keys_plain [OF a])
  show "set (for_in_keys t ?m) = set (for_in_keys s a) \<union> set (for_in_keys s b)"
    using keys_m by (auto simp: fk fa fb)
  show ga: "get_prop t a k = get_prop s a k"
    by (simp add: get_prop_plain [OF pa] get_prop_plain [OF a] ta)
  show "get_prop t b k = get_prop s b k"
    by (simp add: get_prop_plain [OF pb] get_prop_plain [OF b] tb)
  have "get_prop t ?m k =
            (case map_of (own (s ! b)) k of Some v \<Rightarrow> v | None \<Rightarrow> get_prop t a k)"
    by (subst get_prop.simps) (simp add: r(2) r(4) r(5) al split: option.splits)
  then show "get_prop t (length s) k =
           (case map_of (own (s ! b)) k of Some v \<Rightarrow> v | None \<Rightarrow> get_prop s a k)"
    by (simp add: ga split: option.splits)
qed




section \<open>Properties of \<open>diffProps\<close>\<close>

text \<open>What \<open>removeAttribute\<close> leaves: the element without an attribute of that name.\<close>

lemma removeAttribute_gone:
  "\<exists>as'. removeAttribute k (Element n as cs) = Inr (Element n as' cs) \<and> k \<notin> fst ` set as'"
  by (simp add: delete_notin_dom)





lemma step_op_prop:
  "diffProps_step c s a b m vn k node = Inr (node', ops) \<Longrightarrow> x \<in> set ops \<Longrightarrow> op_prop x = Some k"
  by (auto simp: diffProps_step_def split: if_splits option.splits sum.splits)

lemma loop_op_prop:
  "diffProps_loop c s a b m vn ks node = Inr (node', ops) \<Longrightarrow> x \<in> set ops \<Longrightarrow>
   \<exists>k \<in> set ks. op_prop x = Some k"
proof (induction ks arbitrary: node node' ops)
  case Nil
  then show ?case by simp
next
  case (Cons k ks)
  from Cons.prems(1) obtain n1 o1 o2 where
    1: "diffProps_step c s a b m vn k node = Inr (n1, o1)" and
    2: "diffProps_loop c s a b m vn ks n1 = Inr (node', o2)" and
    3: "ops = o1 @ o2"
    by (auto split: sum.splits)
  from Cons.prems(2) 3 consider "x \<in> set o1" | "x \<in> set o2" by auto
  then show ?case
  proof cases
    case 1
    then show ?thesis using step_op_prop [OF \<open>diffProps_step c s a b m vn k node = Inr (n1, o1)\<close>] by simp
  next
    case 2
    then show ?thesis using Cons.IH [OF \<open>diffProps_loop c s a b m vn ks n1 = Inr (node', o2)\<close>] by auto
  qed
qed







lemmas diffProps_eval =
  diffProps_def merge_def Object_create_def merge_step_def hasOwnProperty_def set_prop_def
  literal_def for_in_keys.simps get_prop.simps diffProps_step_def





section \<open>Properties of \<open>createNodeFromVNode\<close>\<close>

lemmas case_eval = toLowerCase_def toUpperCase_def lower_char_def upper_char_def

lemma map_result_all:
  "(\<And>x. x \<in> set xs \<Longrightarrow> f x = Inr (g x)) \<Longrightarrow> map_result f xs = Inr (map g xs)"
  by (induction xs) simp_all

lemma createNodeFromVNode_live_of:
  "materializable v \<Longrightarrow> createNodeFromVNode c v = Inr (live_of v, [])"
proof (induction v)
  case (VNode ty v ps cs m)
  show ?case
  proof (cases "ty = ''#text''")
    case True
    then show ?thesis by simp
  next
    case False
    with VNode.prems obtain md where m: "m = Some md" and all: "list_all materializable cs"
      by auto
    have "map_result (createNodeFromVNode c) cs = Inr (map (\<lambda>x. (live_of x, [])) cs)"
      using VNode.IH all by (intro map_result_all) (simp add: list_all_iff)
    then show ?thesis using False m
      by (simp add: document_createElement_def addEventListeners_def o_def)
  qed
qed

lemma map_result_Inr:
  "map_result f xs = Inr ys \<Longrightarrow> x \<in> set xs \<Longrightarrow> \<exists>y. f x = Inr y"
  by (induction xs arbitrary: ys) (auto split: sum.splits)

lemma createNodeFromVNode_materializable:
  "createNodeFromVNode c v = Inr r \<Longrightarrow> materializable v"
proof (induction v arbitrary: r)
  case (VNode ty v ps cs m)
  show ?case
  proof (cases "ty = ''#text''")
    case True
    then show ?thesis by simp
  next
    case False
    with VNode.prems obtain md rs where m: "m = Some md"
      and rs: "map_result (createNodeFromVNode c) cs = Inr rs"
      by (auto split: option.splits sum.splits)
    have "list_all materializable cs"
      unfolding list_all_iff
    proof
      fix x assume x: "x \<in> set cs"
      then obtain y where "createNodeFromVNode c x = Inr y" using map_result_Inr [OF rs] by blast
      then show "materializable x" using VNode.IH x by blast
    qed
    then show ?thesis using m by simp
  qed
qed

lemma bare_live_of: "bare (live_of v)"
  by (induction v) (simp add: list_all_iff)

lemma createNodeFromVNode_log:
  "createNodeFromVNode c v = Inr (n, ops) \<Longrightarrow> n = live_of v \<and> ops = []"
  using createNodeFromVNode_live_of [OF createNodeFromVNode_materializable] by fastforce

text \<open>
  C10: for every element node (one that is not a text node) in which nothing throws,
  \<open>createNodeFromVNode\<close> returns an element without attributes, whatever \<open>props\<close> the
  node has, and no element below it has one either; its log is empty, so no
  \<open>setAttribute\<close> was called.
\<close>

theorem createNodeFromVNode_no_attributes:
  assumes "type v \<noteq> ''#text''" and "materializable v"
  shows "\<exists>n cs. createNodeFromVNode c v = Inr (Element n [] cs, []) \<and> list_all bare cs \<and>
           extractAttrs (Element n [] cs) = []"
proof -
  have "createNodeFromVNode c v = Inr (live_of v, [])"
    using assms(2) by (rule createNodeFromVNode_live_of)
  moreover have "bare (live_of v)" by (rule bare_live_of)
  moreover obtain n cs where "live_of v = Element n [] cs"
    using assms(1) by (cases v) simp
  ultimately show ?thesis by simp
qed

theorem createNodeFromVNode_no_attributes_witness:
  "type (VNode ''div'' [] [(''class'', JStr ''a'')] [VNode ''#text'' ''x'' [] [] None] (Some defaultMetadata))
     \<noteq> ''#text'' \<and>
   materializable (VNode ''div'' [] [(''class'', JStr ''a'')] [VNode ''#text'' ''x'' [] [] None] (Some defaultMetadata)) \<and>
   (\<exists>n cs. createNodeFromVNode no_directives
             (VNode ''div'' [] [(''class'', JStr ''a'')] [VNode ''#text'' ''x'' [] [] None] (Some defaultMetadata))
           = Inr (Element n [] cs, []) \<and> list_all bare cs \<and> extractAttrs (Element n [] cs) = [])"
proof -
  let ?v = "VNode ''div'' [] [(''class'', JStr ''a'')] [VNode ''#text'' ''x'' [] [] None] (Some defaultMetadata)"
  have 1: "type ?v \<noteq> ''#text''" by simp
  have 2: "materializable ?v" by simp
  show ?thesis using createNodeFromVNode_no_attributes [OF 1 2, of no_directives] 1 2 by blast
qed

text \<open>
  C2: on a node whose \<open>meta\<close> declares a \<open>click\<close> handler, \<open>createNodeFromVNode\<close> returns
  the element with an empty log: no listener is attached and nothing is registered.
  \<open>addEventListeners\<close> with the declared listeners as its second argument would have
  attached one.
\<close>

theorem createNodeFromVNode_attaches_nothing:
  "createNodeFromVNode no_directives
     (VNode ''button'' [] [] [] (Some \<lparr>shouldRender = True, eventListeners = [(''click'', [''onClick''])]\<rparr>))
     = Inr (Element ''BUTTON'' [] [], []) \<and>
   addEventListeners no_directives (Element ''BUTTON'' [] []) (Some [(''click'', [''onClick''])])
     = [AddEventListener (Element ''BUTTON'' [] []) ''click'' ''onClick'']"
  by (simp add: document_createElement_def addEventListeners_def case_eval no_directives_def)

section \<open>Properties of \<open>diff\<close>\<close>

text \<open>
  The child loop as the source writes it: it goes on while
  \<open>i < vnode.children.length || i < node.childNodes.length\<close>, and calls \<open>diff\<close> on
  \<open>node.childNodes[i]\<close> and \<open>vnode.children[i]\<close>.
\<close>

lemma diff_children_loop:
  "diff_children c i cs (drop i vs) =
     (if i < length vs \<or> i < length cs then
        (case diff c (nth_opt cs i) (nth_opt vs i) of
           Inl e \<Rightarrow> Inl e
         | Inr (p, ops) \<Rightarrow>
             (case diff_children c (Suc i) (apply_patch p i cs) (drop (Suc i) vs) of
                Inl e \<Rightarrow> Inl e
              | Inr (cs', ops') \<Rightarrow> Inr (cs', ops @ ops')))
      else Inr (cs, []))"
proof (cases "i < length vs")
  case True
  then have "drop i vs = vs ! i # drop (Suc i) vs" by (simp add: Cons_nth_drop_Suc)
  then show ?thesis using True by (simp add: nth_opt_def)
next
  case False
  then have "drop i vs = []" and "drop (Suc i) vs = []" and "nth_opt vs i = None"
    by (simp_all add: nth_opt_def)
  then show ?thesis using False
    by (simp add: diff_rest.simps [of i cs] split: sum.splits prod.splits)
qed

text \<open>
  C5: for every desired node whose \<open>meta\<close> has \<open>shouldRender\<close> false, \<open>diff\<close> does nothing,
  whatever the live node is: nothing is done to the parent and the log is empty, so
  neither the node nor anything below it is written.
\<close>

theorem diff_gate_closed:
  assumes "meta v = Some md" and "\<not> shouldRender md"
  shows "diff c node (Some v) = Inr (Untouched, [])"
  using assms by (cases v) simp

theorem diff_gate_closed_witness:
  "meta (VNode ''div'' [] [(''class'', JStr ''b'')] [] (Some \<lparr>shouldRender = False, eventListeners = []\<rparr>))
     = Some \<lparr>shouldRender = False, eventListeners = []\<rparr> \<and>
   \<not> shouldRender \<lparr>shouldRender = False, eventListeners = []\<rparr> \<and>
   toLowerCase (nodeName (Element ''SPAN'' [(''class'', ''a'')] [TextNode ''x''])) \<noteq> ''div'' \<and>
   diff no_directives (Some (Element ''SPAN'' [(''class'', ''a'')] [TextNode ''x'']))
     (Some (VNode ''div'' [] [(''class'', JStr ''b'')] [] (Some \<lparr>shouldRender = False, eventListeners = []\<rparr>)))
     = Inr (Untouched, [])"
proof -
  have 1: "meta (VNode ''div'' [] [(''class'', JStr ''b'')] [] (Some \<lparr>shouldRender = False, eventListeners = []\<rparr>))
     = Some \<lparr>shouldRender = False, eventListeners = []\<rparr>" by simp
  have 2: "\<not> shouldRender \<lparr>shouldRender = False, eventListeners = []\<rparr>" by simp
  have 3: "toLowerCase (nodeName (Element ''SPAN'' [(''class'', ''a'')] [TextNode ''x''])) \<noteq> ''div''"
    by (simp add: case_eval)
  show ?thesis using diff_gate_closed [OF 1 2] 1 2 3 by blast
qed

lemma diff_same_name_keeps:
  assumes "toLowerCase (nodeName n) = type v"
  shows "\<not> replaces (diff c (Some n) (Some v))"
  using assms by (cases v) (auto split: sum.splits)

text \<open>
  C7 (as amended): when \<open>diff\<close> compares a present live node with a present desired node
  and the gate is open, the live node is replaced exactly when
  \<open>node.nodeName.toLowerCase()\<close> differs from \<open>vnode.type\<close> as it is written (and
  \<open>createNodeFromVNode\<close> returns); the replacement is the node \<open>createNodeFromVNode\<close>
  made. Only the live name is put in lower case: for a desired type in lower case
  this is the comparison without regard to case.
\<close>

theorem diff_replaces_iff:
  assumes "gate_open v"
  shows "(replaces (diff c (Some n) (Some v)) \<longleftrightarrow>
            toLowerCase (nodeName n) \<noteq> type v \<and> (\<exists>r. createNodeFromVNode c v = Inr r)) \<and>
         (\<forall>new ops. toLowerCase (nodeName n) \<noteq> type v \<longrightarrow>
            createNodeFromVNode c v = Inr (new, ops) \<longrightarrow>
            diff c (Some n) (Some v) = Inr (Replaced new, ops @ [ReplaceChild new n])) \<and>
         (type v = toLowerCase (type v) \<longrightarrow>
            (replaces (diff c (Some n) (Some v)) \<longleftrightarrow>
               toLowerCase (nodeName n) \<noteq> toLowerCase (type v) \<and>
               (\<exists>r. createNodeFromVNode c v = Inr r)))"
proof -
  have 1: "replaces (diff c (Some n) (Some v)) \<longleftrightarrow>
           toLowerCase (nodeName n) \<noteq> type v \<and> (\<exists>r. createNodeFromVNode c v = Inr r)"
  proof (cases "toLowerCase (nodeName n) = type v")
    case True
    then show ?thesis using diff_same_name_keeps by simp
  next
    case False
    then show ?thesis using assms
      by (cases v) (auto simp: gate_open_def split: sum.splits option.splits)
  qed
  have 2: "toLowerCase (nodeName n) \<noteq> type v \<Longrightarrow> createNodeFromVNode c v = Inr (new, ops) \<Longrightarrow>
           diff c (Some n) (Some v) = Inr (Replaced new, ops @ [ReplaceChild new n])" for new ops
    using assms by (cases v) (auto simp: gate_open_def split: option.splits)
  have 3: "type v = toLowerCase (type v) \<Longrightarrow>
           replaces (diff c (Some n) (Some v)) \<longleftrightarrow>
             toLowerCase (nodeName n) \<noteq> toLowerCase (type v) \<and> (\<exists>r. createNodeFromVNode c v = Inr r)"
    using 1 by simp
  show ?thesis using 1 2 3 by blast
qed

theorem diff_replaces_iff_witness:
  "gate_open (VNode ''div'' [] [] [] (Some defaultMetadata)) \<and>
   toLowerCase (nodeName (Element ''SPAN'' [] [])) \<noteq> type (VNode ''div'' [] [] [] (Some defaultMetadata)) \<and>
   createNodeFromVNode no_directives (VNode ''div'' [] [] [] (Some defaultMetadata)) = Inr (Element ''DIV'' [] [], []) \<and>
   replaces (diff no_directives (Some (Element ''SPAN'' [] [])) (Some (VNode ''div'' [] [] [] (Some defaultMetadata)))) \<and>
   diff no_directives (Some (Element ''SPAN'' [] [])) (Some (VNode ''div'' [] [] [] (Some defaultMetadata)))
     = Inr (Replaced (Element ''DIV'' [] []), [ReplaceChild (Element ''DIV'' [] []) (Element ''SPAN'' [] [])]) \<and>
   type (VNode ''div'' [] [] [] (Some defaultMetadata)) = toLowerCase (type (VNode ''div'' [] [] [] (Some defaultMetadata))) \<and>
   \<not> replaces (diff no_directives (Some (Element ''DIV'' [] [])) (Some (VNode ''div'' [] [] [] (Some defaultMetadata))))"
proof -
  let ?v = "VNode ''div'' [] [] [] (Some defaultMetadata)"
  have g: "gate_open ?v" by (simp add: gate_open_def defaultMetadata_def)
  have d: "toLowerCase (nodeName (Element ''SPAN'' [] [])) \<noteq> type ?v" by (simp add: case_eval)
  have e: "toLowerCase (nodeName (Element ''DIV'' [] [])) = type ?v" by (simp add: case_eval)
  have m: "createNodeFromVNode no_directives ?v = Inr (Element ''DIV'' [] [], [])"
    by (simp add: document_createElement_def addEventListeners_def case_eval)
  have l: "type ?v = toLowerCase (type ?v)" by (simp add: case_eval)
  note t1 = diff_replaces_iff [OF g, of no_directives "Element ''SPAN'' [] []"]
  note t2 = diff_replaces_iff [OF g, of no_directives "Element ''DIV'' [] []"]
  have r1: "replaces (diff no_directives (Some (Element ''SPAN'' [] [])) (Some ?v))"
    using t1 d m by blast
  have r2: "diff no_directives (Some (Element ''SPAN'' [] [])) (Some ?v)
     = Inr (Replaced (Element ''DIV'' [] []), [] @ [ReplaceChild (Element ''DIV'' [] []) (Element ''SPAN'' [] [])])"
    using t1 d m by blast
  have r3: "\<not> replaces (diff no_directives (Some (Element ''DIV'' [] [])) (Some ?v))"
    using t2 e by blast
  show ?thesis using g d m r1 r2 r3 l by simp
qed

theorem diff_case_counterexample:
  "toLowerCase (nodeName (Element ''DIV'' [] [])) = toLowerCase ''Div'' \<and>
   diff no_directives (Some (Element ''DIV'' [] [])) (Some (VNode ''Div'' [] [] [] (Some defaultMetadata)))
     = Inr (Replaced (Element ''DIV'' [] []), [ReplaceChild (Element ''DIV'' [] []) (Element ''DIV'' [] [])])"
  by (simp add: case_eval defaultMetadata_def document_createElement_def addEventListeners_def)

text \<open>
  The name of a created element, put in lower case, is the tag put in lower case.
\<close>

lemma toLowerCase_created: "toLowerCase (toUpperCase (toLowerCase s)) = toLowerCase s"
proof -
  have lu: "lower_char (upper_char c) = lower_char c" for c
    by (simp add: lower_char_def upper_char_def)
  have ll: "lower_char (lower_char c) = lower_char c" for c
    by (simp add: lower_char_def)
  show ?thesis by (simp add: toLowerCase_def toUpperCase_def lu ll)
qed

lemma settled_materializable: "settled c v \<Longrightarrow> materializable v"
  by (induction v) (auto simp: list_all_iff)

lemma op_prop_not_structural: "op_prop x = Some k \<Longrightarrow> \<not> structural x"
  by (cases x) simp_all

lemma step_no_directive:
  assumes "directives c k = None"
  shows "\<exists>as' ops. diffProps_step c s a b m vn k (Element n as cs) = Inr (Element n as' cs, ops)"
  using assms by (simp add: diffProps_step_def)

lemma loop_no_directive:
  assumes "\<forall>k \<in> set ks. directives c k = None"
  shows "\<exists>as' ops. diffProps_loop c s a b m vn ks (Element n as cs) = Inr (Element n as' cs, ops)"
  using assms
proof (induction ks arbitrary: as)
  case Nil
  then show ?case by simp
next
  case (Cons k ks)
  then obtain as1 ops1 where 1: "diffProps_step c s a b m vn k (Element n as cs) = Inr (Element n as1 cs, ops1)"
    using step_no_directive [of c k] by (metis list.set_intros(1))
  obtain as2 ops2 where 2: "diffProps_loop c s a b m vn ks (Element n as1 cs) = Inr (Element n as2 cs, ops2)"
    using Cons by (metis list.set_intros(2))
  show ?case using 1 2 by simp
qed

lemma diffProps_fresh:
  assumes "\<forall>k \<in> set (map fst ps). directives c k = None"
  shows "\<exists>as' ops. diffProps c [literal (extractAttrs (Element n [] cs)), literal ps] (Element n [] cs) 0 1 vn
            = Inr (Element n as' cs, ops) \<and> (\<forall>x \<in> set ops. \<not> structural x)"
proof -
  let ?s = "[literal (extractAttrs (Element n [] cs)), literal ps]"
  have a: "plain ?s 0" and b: "plain ?s 1" by (simp_all add: plain_def literal_def)
  define t where "t = fst (merge ?s 0 1)"
  note m = merge_result [OF a b, folded t_def]
  note q = merge_reads [OF a b, folded t_def]
  have "set (for_in_keys t (length ?s)) = set (map fst ps)"
    using q(2) for_in_keys_plain [OF a] for_in_keys_plain [OF b] by (simp add: literal_def)
  then have d: "\<forall>k \<in> set (for_in_keys t (length ?s)). directives c k = None"
    using assms by simp
  obtain as' ops where l: "diffProps_loop c t 0 1 (length ?s) vn (for_in_keys t (length ?s)) (Element n [] cs)
      = Inr (Element n as' cs, ops)"
    using loop_no_directive [OF d] by blast
  have "\<forall>x \<in> set ops. \<not> structural x"
    using loop_op_prop [OF l] op_prop_not_structural by blast
  moreover have "diffProps c ?s (Element n [] cs) 0 1 vn = Inr (Element n as' cs, ops)"
    using l m(1) by (simp add: diffProps_def)
  ultimately show ?thesis by blast
qed

lemma apply_patch_stays:
  "stays p \<Longrightarrow> \<exists>x. apply_patch p (length pre) (pre @ y # rest) = (pre @ [x]) @ rest"
  by (cases p) simp_all

lemma diff_rest_end: "diff_rest (length cs) cs = Inr (cs, [])"
  by (subst diff_rest.simps) simp

lemma diff_children_settled:
  assumes "\<And>v. v \<in> set vs \<Longrightarrow>
             \<exists>p ops. diff c (Some (live_of v)) (Some v) = Inr (p, ops) \<and> stays p \<and>
                      (\<forall>x \<in> set ops. \<not> structural x)"
  shows "\<exists>cs' ops. diff_children c (length pre) (pre @ map live_of vs) vs = Inr (cs', ops) \<and>
           (\<forall>x \<in> set ops. \<not> structural x)"
  using assms
proof (induction vs arbitrary: pre)
  case Nil
  then show ?case by (simp add: diff_rest_end)
next
  case (Cons v vs)
  obtain p ops where d: "diff c (Some (live_of v)) (Some v) = Inr (p, ops)" and s: "stays p"
    and q: "\<forall>x \<in> set ops. \<not> structural x"
    using Cons.prems by (meson list.set_intros(1))
  have n: "nth_opt (pre @ map live_of (v # vs)) (length pre) = Some (live_of v)"
    by (simp add: nth_opt_def)
  obtain x where a: "apply_patch p (length pre) (pre @ map live_of (v # vs)) = (pre @ [x]) @ map live_of vs"
    using apply_patch_stays [OF s, of pre "live_of v" "map live_of vs"] by auto
  obtain cs' ops' where r: "diff_children c (length (pre @ [x])) ((pre @ [x]) @ map live_of vs) vs = Inr (cs', ops')"
    and q': "\<forall>x \<in> set ops'. \<not> structural x"
    using Cons.IH [of "pre @ [x]"] Cons.prems by (meson list.set_intros(2))
  have "diff_children c (length pre) (pre @ map live_of (v # vs)) (v # vs) = Inr (cs', ops @ ops')"
    using n d a r by simp
  then show ?case using q q' by auto
qed

lemma diff_settled:
  "settled c v \<Longrightarrow>
   \<exists>p ops. diff c (Some (live_of v)) (Some v) = Inr (p, ops) \<and> stays p \<and>
            (\<forall>x \<in> set ops. \<not> structural x)"
proof (induction v)
  case (VNode ty v ps vs m)
  show ?case
  proof (cases "case m of None \<Rightarrow> True | Some md \<Rightarrow> shouldRender md")
    case False
    then show ?thesis by simp
  next
    case gate: True
    show ?thesis
    proof (cases "ty = ''#text''")
      case True
      then show ?thesis using gate by (simp add: toLowerCase_def lower_char_def)
    next
      case False
      with VNode.prems have low: "ty = toLowerCase ty"
        and dir: "\<forall>k \<in> set (map fst ps). directives c k = None"
        and ch: "\<forall>x \<in> set vs. settled c x"
        by (auto simp: list_all_iff)
      let ?n = "toUpperCase (toLowerCase ty)"
      have lo: "live_of (VNode ty v ps vs m) = Element ?n [] (map live_of vs)"
        using False by simp
      have nm: "toLowerCase ?n = ty" using toLowerCase_created [of ty] low by simp
      show ?thesis
      proof (cases "ty = []")
        case True
        then show ?thesis using gate nm False unfolding lo by simp
      next
        case ne: False
        obtain as' ops1 where p: "diffProps c [literal (extractAttrs (Element ?n [] (map live_of vs))), literal ps]
            (Element ?n [] (map live_of vs)) 0 1 (VNode ty v ps vs m) = Inr (Element ?n as' (map live_of vs), ops1)"
          and q1: "\<forall>x \<in> set ops1. \<not> structural x"
          using diffProps_fresh [OF dir] by blast
        have "\<exists>cs' ops. diff_children c (length ([]::live list)) ([] @ map live_of vs) vs = Inr (cs', ops) \<and>
                (\<forall>x \<in> set ops. \<not> structural x)"
          using VNode.IH ch by (intro diff_children_settled) blast
        then obtain cs' ops2 where k: "diff_children c 0 (map live_of vs) vs = Inr (cs', ops2)"
          and q2: "\<forall>x \<in> set ops2. \<not> structural x"
          by auto
        have "diff c (Some (Element ?n [] (map live_of vs))) (Some (VNode ty v ps vs m))
              = Inr (Kept (Element ?n as' cs'), ops1 @ ops2)"
          using gate nm False ne p k by simp
        then show ?thesis using q1 q2 unfolding lo by auto
      qed
    qed
  qed
qed

text \<open>
  C1 (as amended): for every tree \<open>T\<close> in which every element has a \<open>meta\<close>, a tag in
  lower case and no attribute named like a registered directive,
  \<open>createNodeFromVNode(T)\<close> returns a node, and \<open>diff\<close> of that node against \<open>T\<close> calls
  neither \<open>appendChild\<close> nor \<open>removeChild\<close> nor \<open>replaceChild\<close>, at any depth: the node
  stays in its place. (It does write text and attributes: the node was made
  without attributes.)
\<close>

theorem diff_materialized_keeps_nodes:
  assumes "settled c T"
  shows "\<exists>n p ops. createNodeFromVNode c T = Inr (n, []) \<and>
           diff c (Some n) (Some T) = Inr (p, ops) \<and> stays p \<and>
           (\<forall>x \<in> set ops. \<not> structural x)"
proof -
  have "createNodeFromVNode c T = Inr (live_of T, [])"
    using assms by (intro createNodeFromVNode_live_of settled_materializable)
  then show ?thesis using diff_settled [OF assms] by blast
qed

theorem diff_materialized_keeps_nodes_witness:
  "settled no_directives
     (VNode ''div'' [] [(''class'', JStr ''a'')]
        [VNode ''#text'' ''a'' [] [] None, VNode ''span'' [] [] [] (Some defaultMetadata)]
        (Some defaultMetadata)) \<and>
   (\<exists>n p ops.
      createNodeFromVNode no_directives
        (VNode ''div'' [] [(''class'', JStr ''a'')]
           [VNode ''#text'' ''a'' [] [] None, VNode ''span'' [] [] [] (Some defaultMetadata)]
           (Some defaultMetadata)) = Inr (n, []) \<and>
      diff no_directives (Some n)
        (Some (VNode ''div'' [] [(''class'', JStr ''a'')]
           [VNode ''#text'' ''a'' [] [] None, VNode ''span'' [] [] [] (Some defaultMetadata)]
           (Some defaultMetadata))) = Inr (p, ops) \<and>
      stays p \<and> (\<forall>x \<in> set ops. \<not> structural x))"
proof -
  let ?T = "VNode ''div'' [] [(''class'', JStr ''a'')]
        [VNode ''#text'' ''a'' [] [] None, VNode ''span'' [] [] [] (Some defaultMetadata)]
        (Some defaultMetadata)"
  have s: "settled no_directives ?T" by (simp add: case_eval no_directives_def)
  show ?thesis using diff_materialized_keeps_nodes [OF s] s by blast
qed

theorem diff_materialized_counterexample:
  "createNodeFromVNode no_directives (VNode ''DIV'' [] [] [] (Some defaultMetadata))
     = Inr (Element ''DIV'' [] [], []) \<and>
   diff no_directives (Some (Element ''DIV'' [] [])) (Some (VNode ''DIV'' [] [] [] (Some defaultMetadata)))
     = Inr (Replaced (Element ''DIV'' [] []), [ReplaceChild (Element ''DIV'' [] []) (Element ''DIV'' [] [])])"
  by (simp add: case_eval defaultMetadata_def document_createElement_def addEventListeners_def)

text \<open>
  Why the other two conditions on the tree are there, and what the pass still writes:
  an element without \<open>meta\<close> makes \<open>createNodeFromVNode\<close> throw; a directive may add a
  child, which the child loop then removes; and an attribute of the tree is set on
  the first pass, since the node was made without it.
\<close>

lemma createNodeFromVNode_without_meta:
  "createNodeFromVNode c (VNode ''div'' [] [] [] None) = Inl TypeError"
  by simp

lemma diff_materialized_with_directive:
  "createNodeFromVNode grow_directive
     (VNode ''div'' [] [(''m-grow'', JStr ''1'')] [] (Some defaultMetadata))
     = Inr (Element ''DIV'' [] [], []) \<and>
   diff grow_directive (Some (Element ''DIV'' [] []))
     (Some (VNode ''div'' [] [(''m-grow'', JStr ''1'')] [] (Some defaultMetadata)))
     = Inr (Kept (Element ''DIV'' [] []),
            [RunDirective ''m-grow'' (Element ''DIV'' [] []) (JStr ''1'')
               (VNode ''div'' [] [(''m-grow'', JStr ''1'')] [] (Some defaultMetadata)),
             RemoveAttribute ''m-grow'', RemoveChild (TextNode ''x'')])"
  by (simp add: case_eval defaultMetadata_def diffProps_eval grow_directive_def diff_rest.simps
        diff_absent_def nth_opt_def document_createElement_def addEventListeners_def)

lemma diff_materialized_sets_attributes:
  "createNodeFromVNode no_directives
     (VNode ''div'' [] [(''class'', JStr ''a'')] [] (Some defaultMetadata))
     = Inr (Element ''DIV'' [] [], []) \<and>
   diff no_directives (Some (Element ''DIV'' [] []))
     (Some (VNode ''div'' [] [(''class'', JStr ''a'')] [] (Some defaultMetadata)))
     = Inr (Kept (Element ''DIV'' [(''class'', ''a'')] []), [SetAttribute ''class'' (JStr ''a'')])"
  by (simp add: case_eval defaultMetadata_def diffProps_eval no_directives_def diff_rest.simps
        diff_absent_def nth_opt_def document_createElement_def addEventListeners_def)

text \<open>
  The child loop reads \<open>node.childNodes\<close> again after every removal while \<open>i\<close> goes up:
  of four live children against a desired node without children, the first and the
  third are removed and the other two stay.
\<close>

lemma diff_rest_skips:
  "diff_rest 0 [TextNode ''1'', TextNode ''2'', TextNode ''3'', TextNode ''4'']
     = Inr ([TextNode ''2'', TextNode ''4''], [RemoveChild (TextNode ''1''), RemoveChild (TextNode ''3'')])"
  by (simp add: diff_rest.simps diff_absent_def nth_opt_def)

end
